theory Spec2Isabelle
  imports Complex_Main "HOL-Library.Sublist"
begin

section \<open>Events\<close>

text \<open>
  An event is the dictionary that the recorder callbacks of \<^verbatim>\<open>MacroRecorder\<close> append:
  the value under \<^verbatim>\<open>'type'\<close> selects the constructor, the remaining keys are its
  arguments. Times are Python floats; they are modelled by real numbers, so the rounding
  of a float subtraction or division is not part of the model. Coordinates and scroll
  deltas are integers. The symbol of a key event is the value under \<^verbatim>\<open>'key'\<close>: a
  string, or Python's \<^verbatim>\<open>None\<close> (here \<open>None\<close>).
\<close>

datatype event =
    MouseClick (timestamp: real) (ev_x: int) (ev_y: int) (button: string) (pressed: bool)
  | MouseMove (timestamp: real) (ev_x: int) (ev_y: int)
  | MouseScroll (timestamp: real) (ev_x: int) (ev_y: int) (ev_dx: int) (ev_dy: int)
  | KeyPress (timestamp: real) (key: "string option")
  | KeyRelease (timestamp: real) (key: "string option")

fun event_type :: "event \<Rightarrow> string" where
  "event_type (MouseClick t x y b p) = ''mouse_click''"
| "event_type (MouseMove t x y) = ''mouse_move''"
| "event_type (MouseScroll t x y dx dy) = ''mouse_scroll''"
| "event_type (KeyPress t k) = ''key_press''"
| "event_type (KeyRelease t k) = ''key_release''"

section \<open>MacroRecorder\<close>

text \<open>
  The recorder object: the buffer, the \<^verbatim>\<open>recording\<close> flag and the start time
  (\<open>None\<close> before the first recording). The two pynput listeners are outside the model;
  their callbacks are the functions below, and the wall clock \<^verbatim>\<open>time.time()\<close> is
  passed to each callback as the value it reads.
\<close>

record recorder =
  events :: "event list"
  recording :: bool
  start_time :: "real option"

definition start_recording :: "recorder \<Rightarrow> real \<Rightarrow> bool \<times> recorder" where
  "start_recording r now =
     (if recording r then (False, r)
      else (True, r\<lparr>events := [], recording := True, start_time := Some now\<rparr>))"

definition stop_recording :: "recorder \<Rightarrow> bool \<times> recorder" where
  "stop_recording r =
     (if \<not> recording r then (False, r) else (True, r\<lparr>recording := False\<rparr>))"

definition get_events :: "recorder \<Rightarrow> event list" where
  "get_events r = events r"

text \<open>
  \<^verbatim>\<open>time.time() - self.start_time if self.start_time else 0\<close>: a start time that is
  \<^verbatim>\<open>None\<close> or \<^verbatim>\<open>0.0\<close> is falsy.
\<close>

definition get_timestamp :: "recorder \<Rightarrow> real \<Rightarrow> real" where
  "get_timestamp r now =
     (case start_time r of
        None \<Rightarrow> 0
      | Some s \<Rightarrow> if s \<noteq> 0 then now - s else 0)"

definition on_mouse_click :: "recorder \<Rightarrow> real \<Rightarrow> int \<Rightarrow> int \<Rightarrow> string \<Rightarrow> bool \<Rightarrow> recorder" where
  "on_mouse_click r now x y b p =
     (if recording r
      then r\<lparr>events := events r @ [MouseClick (get_timestamp r now) x y b p]\<rparr>
      else r)"

text \<open>
  The throttled callback reads the clock twice: \<open>now1\<close> in the condition, \<open>now2\<close> for
  the stored timestamp. \<^verbatim>\<open>self.events[-1]\<close> is only evaluated on a non-empty buffer,
  as the \<^verbatim>\<open>or\<close> of the source short-circuits.
\<close>

definition is_move :: "event \<Rightarrow> bool" where
  "is_move e = (event_type e = ''mouse_move'')"

definition move_accepted :: "recorder \<Rightarrow> real \<Rightarrow> bool" where
  "move_accepted r now1 =
     (events r = [] \<or> event_type (last (events r)) \<noteq> ''mouse_move''
      \<or> get_timestamp r now1 - timestamp (last (events r)) > 1 / 10)"

definition on_mouse_move :: "recorder \<Rightarrow> real \<Rightarrow> real \<Rightarrow> int \<Rightarrow> int \<Rightarrow> recorder" where
  "on_mouse_move r now1 now2 x y =
     (if recording r
      then (if move_accepted r now1
            then r\<lparr>events := events r @ [MouseMove (get_timestamp r now2) x y]\<rparr>
            else r)
      else r)"

definition on_mouse_scroll :: "recorder \<Rightarrow> real \<Rightarrow> int \<Rightarrow> int \<Rightarrow> int \<Rightarrow> int \<Rightarrow> recorder" where
  "on_mouse_scroll r now x y dx dy =
     (if recording r
      then r\<lparr>events := events r @ [MouseScroll (get_timestamp r now) x y dx dy]\<rparr>
      else r)"

text \<open>
  A pynput key is a \<^verbatim>\<open>KeyCode\<close>, whose attribute \<^verbatim>\<open>char\<close> is the character or
  \<^verbatim>\<open>None\<close>, or a member of the enumeration \<^verbatim>\<open>Key\<close>, which has no such attribute and
  prints as \<^verbatim>\<open>Key.<name>\<close>.
\<close>

datatype pynput_key = KeyCode "string option" | Key string

fun key_char :: "pynput_key \<Rightarrow> string option" where
  "key_char (KeyCode c) = c"
| "key_char (Key n) = Some (''Key.'' @ n)"

definition on_key_press :: "recorder \<Rightarrow> real \<Rightarrow> pynput_key \<Rightarrow> recorder" where
  "on_key_press r now k =
     (if recording r
      then r\<lparr>events := events r @ [KeyPress (get_timestamp r now) (key_char k)]\<rparr>
      else r)"

definition on_key_release :: "recorder \<Rightarrow> real \<Rightarrow> pynput_key \<Rightarrow> recorder" where
  "on_key_release r now k =
     (if recording r
      then r\<lparr>events := events r @ [KeyRelease (get_timestamp r now) (key_char k)]\<rparr>
      else r)"

text \<open>A capture session is a sequence of device notifications, handled one by one.\<close>

datatype notification =
    NClick real int int string bool
  | NMove real real int int
  | NScroll real int int int int
  | NKeyPress real pynput_key
  | NKeyRelease real pynput_key

fun notify :: "recorder \<Rightarrow> notification \<Rightarrow> recorder" where
  "notify r (NClick now x y b p) = on_mouse_click r now x y b p"
| "notify r (NMove now1 now2 x y) = on_mouse_move r now1 now2 x y"
| "notify r (NScroll now x y dx dy) = on_mouse_scroll r now x y dx dy"
| "notify r (NKeyPress now k) = on_key_press r now k"
| "notify r (NKeyRelease now k) = on_key_release r now k"

definition capture :: "recorder \<Rightarrow> notification list \<Rightarrow> recorder" where
  "capture r ns = foldl notify r ns"

text \<open>The clock does not run backwards between the two reads of a move callback.\<close>

fun clock_ok :: "notification \<Rightarrow> bool" where
  "clock_ok (NMove now1 now2 x y) = (now1 \<le> now2)"
| "clock_ok _ = True"

text \<open>
  Two neighbours of the buffer that are both moves lie more than a tenth of a second
  apart.
\<close>

fun spaced :: "event list \<Rightarrow> bool" where
  "spaced (a # b # es) =
     ((\<not> (is_move a \<and> is_move b) \<or> timestamp b - timestamp a > 1 / 10) \<and> spaced (b # es))"
| "spaced _ = True"

section \<open>MacroPlayer\<close>

datatype py_error = ZeroDivisionError | TypeError | AttributeError | OSError | JSONDecodeError

text \<open>
  The thread object stored in \<^verbatim>\<open>play_thread\<close> is its target and arguments. The stop
  listener is \<open>None\<close> until a loop replay creates one; \<open>Some b\<close> is a listener object
  that is running when \<open>b\<close> holds. \<^verbatim>\<open>_start_stop_listener\<close> is taken to start one
  of its two listeners. The functions below are the sequential bodies of the methods; two
  calls that interleave are outside the model.
\<close>

datatype worker =
    PlayEvents "event list" real int
  | PlayEventsLoop "event list" real real

record player =
  playing :: bool
  loop_playing :: bool
  play_thread :: "worker option"
  stop_listener :: "bool option"

definition play_macro :: "player \<Rightarrow> event list \<Rightarrow> real \<Rightarrow> int \<Rightarrow> bool \<times> player" where
  "play_macro p evs speed repeat =
     (if playing p then (False, p)
      else (True, p\<lparr>playing := True, play_thread := Some (PlayEvents evs speed repeat)\<rparr>))"

definition play_macro_loop :: "player \<Rightarrow> event list \<Rightarrow> real \<Rightarrow> real \<Rightarrow> bool \<times> player" where
  "play_macro_loop p evs speed delay_between_loops =
     (if playing p \<or> loop_playing p then (False, p)
      else (True, p\<lparr>loop_playing := True, playing := True, stop_listener := Some True,
              play_thread := Some (PlayEventsLoop evs speed delay_between_loops)\<rparr>))"

text \<open>
  What a replay worker does to the outside: it sleeps and it hands an event to
  \<^verbatim>\<open>_execute_event\<close>, which catches every exception of its own and so never raises.
\<close>

datatype action = Sleep real | Dispatch event



text \<open>
  The worker runs beside the threads that may clear \<^verbatim>\<open>self.playing\<close>, so the value
  of the flag at the worker's \<open>k\<close>-th read is given by \<open>flag k\<close>; every function
  returns the number of reads made so far. The inner loop of \<^verbatim>\<open>_play_events\<close>: a
  cleared flag leaves the loop, a zero speed raises at the division (which HOL would
  evaluate to 0), a positive wait is slept, and the event is dispatched.
\<close>

fun play_pass ::
  "(nat \<Rightarrow> bool) \<Rightarrow> real \<Rightarrow> real \<Rightarrow> nat \<Rightarrow> event list \<Rightarrow> py_error option \<times> nat \<times> action list" where
  "play_pass flag speed last_timestamp k [] = (None, k, [])"
| "play_pass flag speed last_timestamp k (e # es) =
     (if \<not> flag k then (None, Suc k, [])
      else if speed = 0 then (Some ZeroDivisionError, Suc k, [])
      else
        (let wait_time = (timestamp e - last_timestamp) / speed;
             acts = (if wait_time > 0 then [Sleep wait_time] else []) @ [Dispatch e]
         in case play_pass flag speed (timestamp e) (Suc k) es of
              (err, k', rest) \<Rightarrow> (err, k', acts @ rest)))"

text \<open>
  The outer loop \<^verbatim>\<open>for _ in range(repeat)\<close>, by the number of iterations left. An
  exception leaves both loops; a \<^verbatim>\<open>break\<close> of the inner loop leaves only the inner one.
\<close>

fun play_repeat ::
  "(nat \<Rightarrow> bool) \<Rightarrow> real \<Rightarrow> event list \<Rightarrow> nat \<Rightarrow> nat \<Rightarrow> py_error option \<times> nat \<times> action list" where
  "play_repeat flag speed evs k 0 = (None, k, [])"
| "play_repeat flag speed evs k (Suc n) =
     (if \<not> flag k then (None, Suc k, [])
      else case play_pass flag speed 0 (Suc k) evs of
             (Some err, k', acts) \<Rightarrow> (Some err, k', acts)
           | (None, k', acts) \<Rightarrow>
               (case play_repeat flag speed evs k' n of
                  (err, k'', rest) \<Rightarrow> (err, k'', acts @ rest)))"

datatype log_line = PlaybackError py_error | AutoSaved string | AutoSaveFailed py_error

text \<open>
  \<^verbatim>\<open>_play_events\<close>: \<^verbatim>\<open>range(repeat)\<close> is empty for a negative count; the handler
  prints the exception and the \<^verbatim>\<open>finally\<close> clause clears the flag.
\<close>

definition play_events ::
  "player \<Rightarrow> (nat \<Rightarrow> bool) \<Rightarrow> event list \<Rightarrow> real \<Rightarrow> int \<Rightarrow> player \<times> action list \<times> log_line list" where
  "play_events p flag evs speed repeat =
     (case play_repeat flag speed evs 0 (nat repeat) of
        (err, k, acts) \<Rightarrow>
          (p\<lparr>playing := False\<rparr>, acts,
           case err of None \<Rightarrow> [] | Some e \<Rightarrow> [PlaybackError e]))"


subsection \<open>Key symbols at replay\<close>



definition startswith :: "string \<Rightarrow> string \<Rightarrow> bool" where
  "startswith s p = (take (length p) s = p)"



section \<open>MacroManager\<close>

subsection \<open>Text produced by the Python runtime\<close>

text \<open>
  \<^verbatim>\<open>str\<close> of a natural number, zero padding, and the two renderings of
  \<^verbatim>\<open>datetime.now()\<close> that the manager uses: \<^verbatim>\<open>strftime("%Y%m%d_%H%M%S")\<close> and
  \<^verbatim>\<open>isoformat()\<close>.
\<close>

definition digit_char :: "nat \<Rightarrow> char" where
  "digit_char d = ''0123456789'' ! d"

fun str_nat :: "nat \<Rightarrow> string" where
  "str_nat n = (if n < 10 then [digit_char n] else str_nat (n div 10) @ [digit_char (n mod 10)])"

declare str_nat.simps [simp del]

definition zpad :: "nat \<Rightarrow> nat \<Rightarrow> string" where
  "zpad w n = replicate (w - length (str_nat n)) CHR ''0'' @ str_nat n"

record datetime =
  dt_year :: nat
  dt_month :: nat
  dt_day :: nat
  dt_hour :: nat
  dt_minute :: nat
  dt_second :: nat
  dt_microsecond :: nat

definition strftime_stamp :: "datetime \<Rightarrow> string" where
  "strftime_stamp d =
     zpad 4 (dt_year d) @ zpad 2 (dt_month d) @ zpad 2 (dt_day d) @ ''_''
     @ zpad 2 (dt_hour d) @ zpad 2 (dt_minute d) @ zpad 2 (dt_second d)"

definition isoformat :: "datetime \<Rightarrow> string" where
  "isoformat d =
     zpad 4 (dt_year d) @ ''-'' @ zpad 2 (dt_month d) @ ''-'' @ zpad 2 (dt_day d) @ ''T''
     @ zpad 2 (dt_hour d) @ '':'' @ zpad 2 (dt_minute d) @ '':'' @ zpad 2 (dt_second d)
     @ (if dt_microsecond d = 0 then [] else ''.'' @ zpad 6 (dt_microsecond d))"

text \<open>
  The values \<^verbatim>\<open>datetime.now()\<close> can take with a four-digit year; for them
  \<^verbatim>\<open>%Y\<close> needs no padding on any platform.
\<close>

definition valid_datetime :: "datetime \<Rightarrow> bool" where
  "valid_datetime d =
     (1000 \<le> dt_year d \<and> dt_year d \<le> 9999 \<and> 1 \<le> dt_month d \<and> dt_month d \<le> 12
      \<and> 1 \<le> dt_day d \<and> dt_day d \<le> 31 \<and> dt_hour d < 24 \<and> dt_minute d < 60
      \<and> dt_second d < 60 \<and> dt_microsecond d < 1000000)"

definition is_digit :: "char \<Rightarrow> bool" where
  "is_digit c = (c \<in> set ''0123456789'')"

text \<open>
  The format specification \<^verbatim>\<open>.1f\<close>: one decimal, the exact value rounded to the
  nearest tenth, a tie to the even one.
\<close>

definition round_half_even :: "real \<Rightarrow> int" where
  "round_half_even a =
     (let f = \<lfloor>a\<rfloor>; r = a - of_int f
      in if r < 1 / 2 then f else if r > 1 / 2 then f + 1 else if even f then f else f + 1)"

definition format_1f :: "real \<Rightarrow> string" where
  "format_1f v =
     (let n = nat (round_half_even (\<bar>v\<bar> * 10))
      in (if v < 0 then ''-'' else []) @ str_nat (n div 10) @ ''.'' @ str_nat (n mod 10))"



subsection \<open>Storage\<close>

text \<open>
  The dictionary written by \<^verbatim>\<open>save_macro\<close> has four fixed keys. A file holds such a
  document or text that \<^verbatim>\<open>json.load\<close> rejects; \<^verbatim>\<open>json.dump\<close> followed by
  \<^verbatim>\<open>json.load\<close> gives back the document, so the file is modelled by the document.
  Whether \<^verbatim>\<open>open(path, 'w')\<close> succeeds (the directory exists, the name is legal, the
  process may write) is a property of the file system, \<open>writable\<close>.
\<close>

record macro_data =
  md_name :: string
  md_description :: string
  md_created :: string
  md_events :: "event list"

datatype file_content = MacroFile macro_data | Unparsable

record filesystem =
  files :: "string \<rightharpoonup> file_content"
  writable :: "string \<Rightarrow> bool"

record manager =
  macros_dir :: string

text \<open>
  \<^verbatim>\<open>self.macros_dir / filename\<close>: an absolute right operand replaces the left one.
  The clean-up that \<^verbatim>\<open>pathlib\<close> applies to the joined text (repeated separators, dot
  components) is left out; saving and loading build the path by the same expression.
\<close>

definition path_join :: "string \<Rightarrow> string \<Rightarrow> string" where
  "path_join dir file = (if startswith file ''/'' then file else dir @ ''/'' @ file)"

definition macro_path :: "manager \<Rightarrow> string \<Rightarrow> string" where
  "macro_path m name = path_join (macros_dir m) (name @ ''.json'')"

definition save_macro ::
  "manager \<Rightarrow> filesystem \<Rightarrow> datetime \<Rightarrow> string \<Rightarrow> event list \<Rightarrow> string
     \<Rightarrow> py_error + (string \<times> filesystem)" where
  "save_macro m fs now name evs description =
     (let macro = \<lparr>md_name = name, md_description = description,
                    md_created = isoformat now, md_events = evs\<rparr>;
          filepath = macro_path m name
      in if writable fs filepath
         then Inr (filepath, fs\<lparr>files := (files fs)(filepath \<mapsto> MacroFile macro)\<rparr>)
         else Inl OSError)"

text \<open>
  \<^verbatim>\<open>auto_save_macro\<close> reads the clock for the name (\<open>now1\<close>); \<^verbatim>\<open>save_macro\<close> reads
  it again for the creation time (\<open>now2\<close>).
\<close>

definition auto_save_macro ::
  "manager \<Rightarrow> filesystem \<Rightarrow> datetime \<Rightarrow> datetime \<Rightarrow> event list
     \<Rightarrow> py_error + (string \<times> filesystem)" where
  "auto_save_macro m fs now1 now2 evs =
     (if evs = [] then Inr ([], fs)
      else
        (let name = ''macro_'' @ strftime_stamp now1;
             mouse_clicks = sum_list [1::nat. e \<leftarrow> evs, event_type e = ''mouse_click'' \<and> pressed e];
             key_presses = sum_list [1::nat. e \<leftarrow> evs, event_type e = ''key_press''];
             duration = (if length evs > 1 then timestamp (last evs) - timestamp (hd evs) else 0);
             description = ''Auto-saved macro: '' @ str_nat mouse_clicks @ '' clicks, ''
               @ str_nat key_presses @ '' key presses, '' @ format_1f duration @ ''s duration''
         in save_macro m fs now2 name evs description))"

definition load_macro :: "manager \<Rightarrow> filesystem \<Rightarrow> string \<Rightarrow> py_error + macro_data option" where
  "load_macro m fs name =
     (case files fs (macro_path m name) of
        None \<Rightarrow> Inr None
      | Some Unparsable \<Rightarrow> Inl JSONDecodeError
      | Some (MacroFile d) \<Rightarrow> Inr (Some d))"

section \<open>Routes\<close>





record stop_response =
  success :: bool
  resp_events :: "event list"
  auto_saved :: bool

definition stop_recording_route ::
  "recorder \<Rightarrow> manager \<Rightarrow> filesystem \<Rightarrow> datetime \<Rightarrow> datetime
     \<Rightarrow> stop_response \<times> recorder \<times> filesystem \<times> log_line list" where
  "stop_recording_route r m fs now1 now2 =
     (case stop_recording r of
        (ok, r') \<Rightarrow>
          (let (fs', printed) =
                 (if ok \<and> events r' \<noteq> []
                  then (case auto_save_macro m fs now1 now2 (events r') of
                          Inr (filepath, fs'') \<Rightarrow> (fs'', [AutoSaved filepath])
                        | Inl e \<Rightarrow> (fs, [AutoSaveFailed e]))
                  else (fs, []))
           in (\<lparr>success = ok,
                resp_events = (if ok then events r' else []),
                auto_saved = (ok \<and> length (events r') > 0)\<rparr>,
               r', fs', printed)))"

section \<open>Starting a replay\<close>

text \<open>
  Claim C5. At most one replay session is active at a time: \<^verbatim>\<open>play_macro\<close> returns
  false and changes nothing while a replay is active, \<^verbatim>\<open>play_macro_loop\<close> returns false
  while a finite or a looping replay is active; on an idle player each marks the session
  active, records the worker thread and returns true without running any of the replay.
  A second start right after a successful one is refused and leaves the first worker in
  place.
\<close>

theorem play_macro_single_session:
  "(playing p \<longrightarrow> play_macro p evs speed repeat = (False, p))
   \<and> (\<not> playing p \<longrightarrow>
        play_macro p evs speed repeat =
          (True, p\<lparr>playing := True, play_thread := Some (PlayEvents evs speed repeat)\<rparr>))
   \<and> (playing p \<or> loop_playing p \<longrightarrow> play_macro_loop p evs speed delay = (False, p))
   \<and> (\<not> playing p \<and> \<not> loop_playing p \<longrightarrow>
        play_macro_loop p evs speed delay =
          (True, p\<lparr>loop_playing := True, playing := True, stop_listener := Some True,
                  play_thread := Some (PlayEventsLoop evs speed delay)\<rparr>))
   \<and> (\<not> playing p \<longrightarrow>
        play_macro (snd (play_macro p evs speed repeat)) evs' speed' repeat'
          = (False, snd (play_macro p evs speed repeat))
        \<and> play_macro_loop (snd (play_macro p evs speed repeat)) evs' speed' delay
          = (False, snd (play_macro p evs speed repeat)))
   \<and> (\<not> playing p \<and> \<not> loop_playing p \<longrightarrow>
        play_macro (snd (play_macro_loop p evs speed delay)) evs' speed' repeat'
          = (False, snd (play_macro_loop p evs speed delay))
        \<and> play_macro_loop (snd (play_macro_loop p evs speed delay)) evs' speed' delay'
          = (False, snd (play_macro_loop p evs speed delay)))"
  by (simp add: play_macro_def play_macro_loop_def)

theorem play_macro_single_session_witness:
  "play_macro \<lparr>playing = False, loop_playing = False, play_thread = None, stop_listener = None\<rparr>
      [MouseMove 0 1 2] 1 1
     = (True, \<lparr>playing = True, loop_playing = False,
               play_thread = Some (PlayEvents [MouseMove 0 1 2] 1 1), stop_listener = None\<rparr>)
   \<and> play_macro \<lparr>playing = True, loop_playing = False,
               play_thread = Some (PlayEvents [MouseMove 0 1 2] 1 1), stop_listener = None\<rparr>
      [KeyPress 0 (Some ''a'')] 2 3
     = (False, \<lparr>playing = True, loop_playing = False,
               play_thread = Some (PlayEvents [MouseMove 0 1 2] 1 1), stop_listener = None\<rparr>)
   \<and> play_macro_loop \<lparr>playing = True, loop_playing = False,
               play_thread = Some (PlayEvents [MouseMove 0 1 2] 1 1), stop_listener = None\<rparr>
      [KeyPress 0 (Some ''a'')] 2 1
     = (False, \<lparr>playing = True, loop_playing = False,
               play_thread = Some (PlayEvents [MouseMove 0 1 2] 1 1), stop_listener = None\<rparr>)
   \<and> play_macro_loop \<lparr>playing = False, loop_playing = False, play_thread = None, stop_listener = None\<rparr>
      [MouseMove 0 1 2] 1 (1 / 2)
     = (True, \<lparr>playing = True, loop_playing = True,
               play_thread = Some (PlayEventsLoop [MouseMove 0 1 2] 1 (1 / 2)),
               stop_listener = Some True\<rparr>)"
  using play_macro_single_session
    [of "\<lparr>playing = False, loop_playing = False, play_thread = None, stop_listener = None\<rparr>"
        "[MouseMove 0 1 2]" 1 1 "1 / 2"]
    play_macro_single_session
    [of "\<lparr>playing = True, loop_playing = False,
               play_thread = Some (PlayEvents [MouseMove 0 1 2] 1 1), stop_listener = None\<rparr>"
        "[KeyPress 0 (Some ''a'')]" 2 3 1]
  by simp

section \<open>The throttle on pointer moves\<close>

lemma spaced_snoc:
  "spaced (es @ [e]) =
     (spaced es \<and> (es = [] \<or> \<not> (is_move (last es) \<and> is_move e)
        \<or> timestamp e - timestamp (last es) > 1 / 10))"
  by (induction es rule: spaced.induct) auto

lemma is_move_simps [simp]:
  "is_move (MouseMove t x y)" "\<not> is_move (MouseClick t x y b p)"
  "\<not> is_move (MouseScroll t x y dx dy)" "\<not> is_move (KeyPress t k)" "\<not> is_move (KeyRelease t k)"
  by (simp_all add: is_move_def)

lemma get_timestamp_mono: "now1 \<le> now2 \<Longrightarrow> get_timestamp r now1 \<le> get_timestamp r now2"
  by (simp add: get_timestamp_def split: option.splits)

lemma spaced_on_mouse_move:
  assumes "spaced (events r)" "now1 \<le> now2"
  shows "spaced (events (on_mouse_move r now1 now2 x y))"
proof -
  have m: "get_timestamp r now1 \<le> get_timestamp r now2"
    using assms(2) by (rule get_timestamp_mono)
  show ?thesis
    using assms(1) m
    by (auto simp: on_mouse_move_def move_accepted_def spaced_snoc is_move_def)
qed

lemma spaced_notify:
  "spaced (events r) \<Longrightarrow> clock_ok n \<Longrightarrow> spaced (events (notify r n))"
  by (cases n)
     (auto simp: spaced_on_mouse_move on_mouse_click_def on_mouse_scroll_def
        on_key_press_def on_key_release_def spaced_snoc)

lemma spaced_capture:
  "spaced (events r) \<Longrightarrow> list_all clock_ok ns \<Longrightarrow> spaced (events (capture r ns))"
  unfolding capture_def
  by (induction ns arbitrary: r) (auto simp: spaced_notify)

lemma spaced_run:
  "spaced es \<Longrightarrow> i < j \<Longrightarrow> j < length es \<Longrightarrow> (\<forall>k. i \<le> k \<and> k \<le> j \<longrightarrow> is_move (es ! k))
     \<Longrightarrow> timestamp (es ! j) - timestamp (es ! i) > 1 / 10"
proof (induction es arbitrary: i j rule: spaced.induct)
  case (1 a b es)
  note sp = "1.prems"(1) and ij = "1.prems"(2) and jl = "1.prems"(3) and mv = "1.prems"(4)
  have tl: "spaced (b # es)" using sp by simp
  show ?case
  proof (cases i)
    case 0
    have ma: "is_move a" using mv 0 by (auto dest: spec [of _ 0])
    have mb: "is_move b" using mv 0 ij by (auto dest: spec [of _ 1])
    have ab: "timestamp b - timestamp a > 1 / 10" using sp ma mb by simp
    show ?thesis
    proof (cases "j = 1")
      case True
      then show ?thesis using ab 0 by simp
    next
      case False
      then obtain j' where j': "j = Suc j'" "0 < j'" using ij 0 by (cases j) auto
      have "\<forall>k. 0 \<le> k \<and> k \<le> j' \<longrightarrow> is_move ((b # es) ! k)"
      proof (intro allI impI)
        fix k assume "0 \<le> k \<and> k \<le> j'"
        then have "is_move ((a # b # es) ! Suc k)" using mv 0 j' by auto
        then show "is_move ((b # es) ! k)" by simp
      qed
      moreover have "j' < length (b # es)" using jl j' by simp
      ultimately have "timestamp ((b # es) ! j') - timestamp ((b # es) ! 0) > 1 / 10"
        using "1.IH" [OF tl j'(2)] by blast
      then show ?thesis using ab 0 j' by simp
    qed
  next
    case (Suc i')
    then obtain j' where j': "j = Suc j'" "i' < j'" using ij by (cases j) auto
    have "\<forall>k. i' \<le> k \<and> k \<le> j' \<longrightarrow> is_move ((b # es) ! k)"
    proof (intro allI impI)
      fix k assume "i' \<le> k \<and> k \<le> j'"
      then have "is_move ((a # b # es) ! Suc k)" using mv Suc j' by auto
      then show "is_move ((b # es) ! k)" by simp
    qed
    moreover have "j' < length (b # es)" using jl j' by simp
    ultimately have "timestamp ((b # es) ! j') - timestamp ((b # es) ! i') > 1 / 10"
      using "1.IH" [OF tl j'(2)] by blast
    then show ?thesis using Suc j' by simp
  qed
qed auto


text \<open>
  Claim C3, as stated: while capturing, a move is appended if and only if the buffer is
  empty, or the last stored event is not a move, or at least 0.1 seconds have passed since
  the last stored move. The source compares with \<^verbatim>\<open>> 0.1\<close>: a move that arrives
  exactly 0.1 seconds after the last stored move is dropped.
\<close>

theorem move_throttle_claimed_counterexample:
  "recording \<lparr>events = [MouseMove 0 5 5], recording = True, start_time = Some (1 / 10)\<rparr>
   \<and> is_move (last (events \<lparr>events = [MouseMove 0 5 5], recording = True,
                              start_time = Some (1 / 10)\<rparr>))
   \<and> get_timestamp \<lparr>events = [MouseMove 0 5 5], recording = True, start_time = Some (1 / 10)\<rparr>
         (2 / 10)
       - timestamp (last (events \<lparr>events = [MouseMove 0 5 5], recording = True,
                                   start_time = Some (1 / 10)\<rparr>)) = 1 / 10
   \<and> events (on_mouse_move
        \<lparr>events = [MouseMove 0 5 5], recording = True, start_time = Some (1 / 10)\<rparr>
        (2 / 10) (2 / 10) 6 6) = [MouseMove 0 5 5]"
  by (simp add: on_mouse_move_def move_accepted_def get_timestamp_def)

text \<open>
  Claim C3, amended: while capturing, a move is appended if and only if the buffer is
  empty, or the last stored event is not a move, or more than 0.1 seconds have passed
  since the offset of the last stored move; a move after an event that is not a move is
  always stored. Hence, when the clock does not run backwards between the two reads of a
  callback, neighbouring moves of the buffer are more than 0.1 seconds apart, and so are
  any two moves with only moves between them.
\<close>

theorem move_throttle:
  "(recording r \<longrightarrow>
      events (on_mouse_move r now1 now2 x y) =
        (if events r = [] \<or> \<not> is_move (last (events r))
            \<or> get_timestamp r now1 - timestamp (last (events r)) > 1 / 10
         then events r @ [MouseMove (get_timestamp r now2) x y]
         else events r))
   \<and> (recording r \<and> events r \<noteq> [] \<and> \<not> is_move (last (events r)) \<longrightarrow>
        events (on_mouse_move r now1 now2 x y) = events r @ [MouseMove (get_timestamp r now2) x y])
   \<and> (spaced (events r) \<and> list_all clock_ok ns \<longrightarrow>
        spaced (events (capture r ns))
        \<and> (\<forall>i j. i < j \<and> j < length (events (capture r ns))
               \<and> (\<forall>k. i \<le> k \<and> k \<le> j \<longrightarrow> is_move (events (capture r ns) ! k))
             \<longrightarrow> timestamp (events (capture r ns) ! j) - timestamp (events (capture r ns) ! i)
                   > 1 / 10))"
proof (intro conjI impI allI)
  assume "recording r"
  then show "events (on_mouse_move r now1 now2 x y) =
        (if events r = [] \<or> \<not> is_move (last (events r))
            \<or> get_timestamp r now1 - timestamp (last (events r)) > 1 / 10
         then events r @ [MouseMove (get_timestamp r now2) x y]
         else events r)"
    by (simp add: on_mouse_move_def move_accepted_def is_move_def)
next
  assume "recording r \<and> events r \<noteq> [] \<and> \<not> is_move (last (events r))"
  then show "events (on_mouse_move r now1 now2 x y)
      = events r @ [MouseMove (get_timestamp r now2) x y]"
    by (simp add: on_mouse_move_def move_accepted_def is_move_def)
next
  assume "spaced (events r) \<and> list_all clock_ok ns"
  then show "spaced (events (capture r ns))"
    by (simp add: spaced_capture)
next
  fix i j
  assume a: "spaced (events r) \<and> list_all clock_ok ns"
    and b: "i < j \<and> j < length (events (capture r ns))
               \<and> (\<forall>k. i \<le> k \<and> k \<le> j \<longrightarrow> is_move (events (capture r ns) ! k))"
  have "spaced (events (capture r ns))" using a by (simp add: spaced_capture)
  then show "timestamp (events (capture r ns) ! j) - timestamp (events (capture r ns) ! i)
                   > 1 / 10"
    using b by (intro spaced_run) auto
qed

theorem move_throttle_witness:
  "recording \<lparr>events = [], recording = True, start_time = Some 100\<rparr>
   \<and> spaced (events \<lparr>events = [], recording = True, start_time = Some 100\<rparr>)
   \<and> list_all clock_ok
        [NMove 100 100 1 1, NMove (1001 / 10) (1001 / 10) 2 2, NMove (2003 / 20) (2003 / 20) 3 3,
         NMove (1003 / 10) (1003 / 10) 4 4, NClick (10031 / 100) 4 4 ''Button.left'' True,
         NMove (10032 / 100) (10032 / 100) 5 5]
   \<and> events (capture \<lparr>events = [], recording = True, start_time = Some 100\<rparr>
        [NMove 100 100 1 1, NMove (1001 / 10) (1001 / 10) 2 2, NMove (2003 / 20) (2003 / 20) 3 3,
         NMove (1003 / 10) (1003 / 10) 4 4, NClick (10031 / 100) 4 4 ''Button.left'' True,
         NMove (10032 / 100) (10032 / 100) 5 5])
      = [MouseMove 0 1 1, MouseMove (3 / 20) 3 3, MouseMove (3 / 10) 4 4,
         MouseClick (31 / 100) 4 4 ''Button.left'' True, MouseMove (32 / 100) 5 5]
   \<and> spaced [MouseMove 0 1 1, MouseMove (3 / 20) 3 3, MouseMove (3 / 10) 4 4,
         MouseClick (31 / 100) 4 4 ''Button.left'' True, MouseMove (32 / 100) 5 5]
   \<and> timestamp (MouseMove (3 / 10) 4 4) - timestamp (MouseMove 0 1 1) > 1 / 10"
proof -
  let ?r = "\<lparr>events = [], recording = True, start_time = Some 100\<rparr>"
  let ?ns = "[NMove 100 100 1 1, NMove (1001 / 10) (1001 / 10) 2 2, NMove (2003 / 20) (2003 / 20) 3 3,
         NMove (1003 / 10) (1003 / 10) 4 4, NClick (10031 / 100) 4 4 ''Button.left'' True,
         NMove (10032 / 100) (10032 / 100) 5 5]"
  have ev: "events (capture ?r ?ns)
      = [MouseMove 0 1 1, MouseMove (3 / 20) 3 3, MouseMove (3 / 10) 4 4,
         MouseClick (31 / 100) 4 4 ''Button.left'' True, MouseMove (32 / 100) 5 5]"
    by (simp add: capture_def on_mouse_move_def move_accepted_def get_timestamp_def
          on_mouse_click_def)
  have h: "spaced (events ?r) \<and> list_all clock_ok ?ns" by simp
  from move_throttle [of ?r _ _ _ _ ?ns] h
  have "spaced (events (capture ?r ?ns))" by blast
  then show ?thesis using ev h by simp
qed

section \<open>The finite replay worker\<close>














section \<open>A speed that is not positive\<close>

lemma play_pass_sleeps:
  "play_pass flag speed prev k es = (err, k', acts) \<Longrightarrow> Sleep d \<in> set acts \<Longrightarrow> d > 0"
proof (induction es arbitrary: prev k acts err k')
  case Nil
  then show ?case by simp
next
  case (Cons e es)
  show ?case
  proof (cases "flag k \<and> speed \<noteq> 0")
    case False
    then show ?thesis using Cons.prems by (auto split: if_splits)
  next
    case True
    obtain err1 k1 rest where r: "play_pass flag speed (timestamp e) (Suc k) es = (err1, k1, rest)"
      by (cases "play_pass flag speed (timestamp e) (Suc k) es") auto
    have "acts = (if (timestamp e - prev) / speed > 0 then [Sleep ((timestamp e - prev) / speed)] else [])
        @ [Dispatch e] @ rest"
      using Cons.prems(1) True r by (auto simp: Let_def)
    then have "Sleep d \<in> set rest \<or> (d = (timestamp e - prev) / speed \<and> d > 0)"
      using Cons.prems(2) by (auto split: if_splits)
    then show ?thesis using Cons.IH [OF r] by auto
  qed
qed

lemma play_repeat_sleeps:
  "play_repeat flag speed evs k n = (err, k', acts) \<Longrightarrow> Sleep d \<in> set acts \<Longrightarrow> d > 0"
proof (induction n arbitrary: k acts err k')
  case 0
  then show ?case by simp
next
  case (Suc n)
  show ?case
  proof (cases "flag k")
    case False
    then show ?thesis using Suc.prems by auto
  next
    case True
    obtain e1 k1 a1 where p: "play_pass flag speed 0 (Suc k) evs = (e1, k1, a1)"
      by (cases "play_pass flag speed 0 (Suc k) evs") auto
    show ?thesis
    proof (cases e1)
      case (Some x)
      then have "acts = a1" using Suc.prems(1) True p by auto
      then show ?thesis using play_pass_sleeps [OF p] Suc.prems(2) by simp
    next
      case None
      obtain e2 k2 a2 where q: "play_repeat flag speed evs k1 n = (e2, k2, a2)"
        by (cases "play_repeat flag speed evs k1 n") auto
      have "acts = a1 @ a2" using Suc.prems(1) True p q None by auto
      then show ?thesis using play_pass_sleeps [OF p] Suc.IH [OF q] Suc.prems(2) by auto
    qed
  qed
qed

lemma play_pass_zero_speed:
  "snd (snd (play_pass flag 0 prev k es)) = []"
  by (cases es) auto

lemma play_repeat_zero_speed:
  "snd (snd (play_repeat flag 0 evs k n)) = []"
proof (induction n arbitrary: k)
  case 0
  then show ?case by simp
next
  case (Suc n)
  obtain e1 k1 a1 where p: "play_pass flag 0 0 (Suc k) evs = (e1, k1, a1)"
    by (cases "play_pass flag 0 0 (Suc k) evs") auto
  have a1: "a1 = []" using play_pass_zero_speed [of flag 0 "Suc k" evs] p by simp
  obtain e2 k2 a2 where q: "play_repeat flag 0 evs k1 n = (e2, k2, a2)"
    by (cases "play_repeat flag 0 evs k1 n") auto
  have a2: "a2 = []" using Suc.IH [of k1] q by simp
  show ?case using p q a1 a2 by (auto split: option.splits)
qed

lemma play_repeat_zero_speed_raises:
  "flag k \<Longrightarrow> flag (Suc k) \<Longrightarrow> evs \<noteq> [] \<Longrightarrow> 0 < n \<Longrightarrow>
     play_repeat flag 0 evs k n = (Some ZeroDivisionError, Suc (Suc k), [])"
  by (cases n; cases evs) auto

lemma play_pass_negative_speed:
  "\<forall>k. flag k \<Longrightarrow> speed < 0 \<Longrightarrow> sorted (prev # map timestamp es) \<Longrightarrow>
     play_pass flag speed prev k es = (None, k + length es, map Dispatch es)"
proof (induction es arbitrary: prev k)
  case Nil
  then show ?case by simp
next
  case (Cons e es)
  have le: "prev \<le> timestamp e" using Cons.prems(3) by simp
  have w: "\<not> (timestamp e - prev) / speed > 0"
    using le Cons.prems(2) by (simp add: divide_less_0_iff zero_less_divide_iff)
  have "sorted (timestamp e # map timestamp es)" using Cons.prems(3) by simp
  from Cons.IH [OF Cons.prems(1) Cons.prems(2) this]
  show ?case using Cons.prems(1,2) w by (simp add: Let_def)
qed

lemma play_repeat_negative_speed:
  "\<forall>k. flag k \<Longrightarrow> speed < 0 \<Longrightarrow> sorted (0 # map timestamp evs) \<Longrightarrow>
     play_repeat flag speed evs k n
       = (None, k + n * Suc (length evs), map Dispatch (concat (replicate n evs)))"
  by (induction n arbitrary: k) (auto simp: play_pass_negative_speed)

text \<open>
  Claim C7, as stated: a play request with a speed of 0 or less is rejected, or its speed
  is clamped, so that no wait is ever divided by such a speed. Neither \<^verbatim>\<open>play_macro\<close>
  nor the worker looks at the speed before the division: a request with speed 0 on an
  idle player is accepted, the worker gets the speed 0, and the division of the first wait
  raises.
\<close>

theorem play_nonpositive_speed_counterexample:
  "(0::real) \<le> 0
   \<and> play_macro \<lparr>playing = False, loop_playing = False, play_thread = None, stop_listener = None\<rparr>
        [MouseMove 1 5 5] 0 1
      = (True, \<lparr>playing = True, loop_playing = False,
                play_thread = Some (PlayEvents [MouseMove 1 5 5] 0 1), stop_listener = None\<rparr>)
   \<and> play_pass (\<lambda>k. True) 0 0 1 [MouseMove 1 5 5] = (Some ZeroDivisionError, 2, [])
   \<and> play_events \<lparr>playing = True, loop_playing = False,
                play_thread = Some (PlayEvents [MouseMove 1 5 5] 0 1), stop_listener = None\<rparr>
        (\<lambda>k. True) [MouseMove 1 5 5] 0 1
      = (\<lparr>playing = False, loop_playing = False,
          play_thread = Some (PlayEvents [MouseMove 1 5 5] 0 1), stop_listener = None\<rparr>,
         [], [PlaybackError ZeroDivisionError])"
  by (simp add: play_macro_def play_events_def eval_nat_numeral)

text \<open>
  Claim C7, amended: a play request with a speed of 0 or less is neither rejected nor
  clamped: on an idle player \<^verbatim>\<open>play_macro\<close> returns true and hands the speed to the
  worker as it is. The worker contains the outcome. Whatever the speed, it only sleeps for
  a positive time and it marks the session inactive when it ends. With speed 0 nothing is
  dispatched: the first division raises, the worker's handler prints the error and the
  replay ends. With a negative speed and offsets that do not decrease from 0, every wait
  is skipped and all events are dispatched back to back.
\<close>

theorem play_nonpositive_speed:
  "(\<not> playing p \<longrightarrow>
      play_macro p evs speed repeat
        = (True, p\<lparr>playing := True, play_thread := Some (PlayEvents evs speed repeat)\<rparr>))
   \<and> fst (play_events p flag evs speed repeat) = p\<lparr>playing := False\<rparr>
   \<and> (\<forall>d. Sleep d \<in> set (fst (snd (play_events p flag evs speed repeat))) \<longrightarrow> d > 0)
   \<and> (speed = 0 \<longrightarrow> fst (snd (play_events p flag evs speed repeat)) = [])
   \<and> (speed = 0 \<and> flag 0 \<and> flag 1 \<and> evs \<noteq> [] \<and> 0 < repeat \<longrightarrow>
        play_events p flag evs speed repeat
          = (p\<lparr>playing := False\<rparr>, [], [PlaybackError ZeroDivisionError]))
   \<and> (speed < 0 \<and> (\<forall>k. flag k) \<and> sorted (0 # map timestamp evs) \<longrightarrow>
        play_events p flag evs speed repeat
          = (p\<lparr>playing := False\<rparr>, map Dispatch (concat (replicate (nat repeat) evs)), []))"
proof -
  obtain err k acts where r: "play_repeat flag speed evs 0 (nat repeat) = (err, k, acts)"
    by (cases "play_repeat flag speed evs 0 (nat repeat)") auto
  have pe: "play_events p flag evs speed repeat
      = (p\<lparr>playing := False\<rparr>, acts, case err of None \<Rightarrow> [] | Some e \<Rightarrow> [PlaybackError e])"
    by (simp add: play_events_def r)
  have a: "\<not> playing p \<longrightarrow>
      play_macro p evs speed repeat
        = (True, p\<lparr>playing := True, play_thread := Some (PlayEvents evs speed repeat)\<rparr>)"
    by (simp add: play_macro_def)
  have b: "fst (play_events p flag evs speed repeat) = p\<lparr>playing := False\<rparr>"
    by (simp add: pe)
  have c: "\<forall>d. Sleep d \<in> set (fst (snd (play_events p flag evs speed repeat))) \<longrightarrow> d > 0"
    using play_repeat_sleeps [OF r] by (simp add: pe)
  have d: "speed = 0 \<longrightarrow> fst (snd (play_events p flag evs speed repeat)) = []"
  proof
    assume z: "speed = 0"
    have "acts = []" using play_repeat_zero_speed [of flag evs 0 "nat repeat"] r z by simp
    then show "fst (snd (play_events p flag evs speed repeat)) = []" by (simp add: pe)
  qed
  have e: "speed = 0 \<and> flag 0 \<and> flag 1 \<and> evs \<noteq> [] \<and> 0 < repeat \<longrightarrow>
        play_events p flag evs speed repeat
          = (p\<lparr>playing := False\<rparr>, [], [PlaybackError ZeroDivisionError])"
    using play_repeat_zero_speed_raises [of flag 0 evs "nat repeat"]
    by (auto simp: play_events_def)
  have f: "speed < 0 \<and> (\<forall>k. flag k) \<and> sorted (0 # map timestamp evs) \<longrightarrow>
        play_events p flag evs speed repeat
          = (p\<lparr>playing := False\<rparr>, map Dispatch (concat (replicate (nat repeat) evs)), [])"
    using play_repeat_negative_speed [of flag speed evs 0 "nat repeat"]
    by (auto simp: play_events_def)
  show ?thesis using a b c d e f by blast
qed

theorem play_nonpositive_speed_witness:
  "\<not> playing \<lparr>playing = False, loop_playing = False, play_thread = None, stop_listener = None\<rparr>
   \<and> play_macro \<lparr>playing = False, loop_playing = False, play_thread = None, stop_listener = None\<rparr>
        [MouseMove 0 1 1, MouseMove 1 2 2] (- 1) 1
      = (True, \<lparr>playing = True, loop_playing = False,
                play_thread = Some (PlayEvents [MouseMove 0 1 1, MouseMove 1 2 2] (- 1) 1),
                stop_listener = None\<rparr>)
   \<and> sorted (0 # map timestamp [MouseMove 0 1 1, MouseMove 1 2 2])
   \<and> play_events \<lparr>playing = True, loop_playing = False, play_thread = None, stop_listener = None\<rparr>
        (\<lambda>k. True) [MouseMove 0 1 1, MouseMove 1 2 2] (- 1) 1
      = (\<lparr>playing = False, loop_playing = False, play_thread = None, stop_listener = None\<rparr>,
         [Dispatch (MouseMove 0 1 1), Dispatch (MouseMove 1 2 2)], [])
   \<and> play_events \<lparr>playing = True, loop_playing = False, play_thread = None, stop_listener = None\<rparr>
        (\<lambda>k. True) [MouseMove 0 1 1, MouseMove 1 2 2] 0 1
      = (\<lparr>playing = False, loop_playing = False, play_thread = None, stop_listener = None\<rparr>,
         [], [PlaybackError ZeroDivisionError])
   \<and> play_events \<lparr>playing = True, loop_playing = False, play_thread = None, stop_listener = None\<rparr>
        (\<lambda>k. True) [MouseMove 1 1 1, MouseMove 0 2 2] (- 2) 1
      = (\<lparr>playing = False, loop_playing = False, play_thread = None, stop_listener = None\<rparr>,
         [Dispatch (MouseMove 1 1 1), Sleep (1 / 2), Dispatch (MouseMove 0 2 2)], [])
   \<and> (0::real) < 1 / 2"
proof -
  let ?idle = "\<lparr>playing = False, loop_playing = False, play_thread = None, stop_listener = None\<rparr>"
  let ?p = "\<lparr>playing = True, loop_playing = False, play_thread = None, stop_listener = None\<rparr>"
  let ?evs = "[MouseMove 0 1 1, MouseMove 1 2 2]"
  let ?bw = "[MouseMove 1 1 1, MouseMove 0 2 2]"
  have bw: "play_events ?p (\<lambda>k. True) ?bw (- 2) 1
      = (?p\<lparr>playing := False\<rparr>, [Dispatch (MouseMove 1 1 1), Sleep (1 / 2), Dispatch (MouseMove 0 2 2)], [])"
    by (simp add: play_events_def eval_nat_numeral)
  have "Sleep (1 / 2) \<in> set (fst (snd (play_events ?p (\<lambda>k. True) ?bw (- 2) 1)))"
    by (simp add: bw)
  then have pos: "(0::real) < 1 / 2"
    using play_nonpositive_speed [of ?p ?bw "- 2" 1 "\<lambda>k. True"] by blast
  show ?thesis
    using play_nonpositive_speed [of ?idle ?evs "- 1" 1 "\<lambda>k. True"]
      play_nonpositive_speed [of ?p ?evs "- 1" 1 "\<lambda>k. True"]
      play_nonpositive_speed [of ?p ?evs 0 1 "\<lambda>k. True"] bw pos
    by simp
qed

section \<open>Key symbols\<close>





section \<open>Saving and loading\<close>

lemma save_macro_result:
  "save_macro m fs now name evs description =
     (if writable fs (macro_path m name)
      then Inr (macro_path m name,
                fs\<lparr>files := (files fs)(macro_path m name \<mapsto>
                  MacroFile \<lparr>md_name = name, md_description = description,
                             md_created = isoformat now, md_events = evs\<rparr>)\<rparr>)
      else Inl OSError)"
  by (simp add: save_macro_def Let_def)



section \<open>Automatic saving\<close>

lemma digit_char_is_digit: "d < 10 \<Longrightarrow> is_digit (digit_char d)"
proof -
  assume "d < 10"
  then have "d = 0 \<or> d = 1 \<or> d = 2 \<or> d = 3 \<or> d = 4 \<or> d = 5 \<or> d = 6 \<or> d = 7 \<or> d = 8 \<or> d = 9"
    by arith
  then show ?thesis
    by (elim disjE) (simp_all add: digit_char_def is_digit_def)
qed

lemma str_nat_digits: "list_all is_digit (str_nat n)"
proof (induction n rule: str_nat.induct)
  case (1 n)
  show ?case
  proof (cases "n < 10")
    case True
    then show ?thesis by (subst str_nat.simps) (simp add: digit_char_is_digit)
  next
    case False
    then have "list_all is_digit (str_nat (n div 10))" using 1 by simp
    moreover have "is_digit (digit_char (n mod 10))" by (simp add: digit_char_is_digit)
    ultimately show ?thesis using False by (subst str_nat.simps) simp
  qed
qed

lemma str_nat_length: "n < 10 ^ w \<Longrightarrow> 0 < w \<Longrightarrow> length (str_nat n) \<le> w"
proof (induction n arbitrary: w rule: str_nat.induct)
  case (1 n)
  show ?case
  proof (cases "n < 10")
    case True
    then show ?thesis using "1.prems" by (subst str_nat.simps) simp
  next
    case False
    obtain v where v: "w = Suc v" using "1.prems"(2) by (cases w) auto
    have "0 < v" using False "1.prems"(1) v by (cases v) auto
    moreover have "n div 10 < 10 ^ v" using "1.prems"(1) v by (simp add: less_mult_imp_div_less)
    ultimately have "length (str_nat (n div 10)) \<le> v" using "1.IH" False by simp
    then show ?thesis using False v by (subst str_nat.simps) simp
  qed
qed

lemma zpad_length: "n < 10 ^ w \<Longrightarrow> 0 < w \<Longrightarrow> length (zpad w n) = w"
  using str_nat_length [of n w] by (simp add: zpad_def)

lemma zpad_digits: "list_all is_digit (zpad w n)"
proof -
  have "is_digit CHR ''0''" by (simp add: is_digit_def)
  then have "list_all is_digit (replicate (w - length (str_nat n)) CHR ''0'')"
    by (simp add: list_all_iff)
  then show ?thesis by (simp add: zpad_def str_nat_digits)
qed

lemma strftime_stamp_shape:
  assumes "valid_datetime d"
  shows "length (strftime_stamp d) = 15
    \<and> strftime_stamp d = take 8 (strftime_stamp d) @ ''_'' @ drop 9 (strftime_stamp d)
    \<and> list_all is_digit (take 8 (strftime_stamp d))
    \<and> list_all is_digit (drop 9 (strftime_stamp d))"
proof -
  have l: "length (zpad 4 (dt_year d)) = 4" "length (zpad 2 (dt_month d)) = 2"
    "length (zpad 2 (dt_day d)) = 2" "length (zpad 2 (dt_hour d)) = 2"
    "length (zpad 2 (dt_minute d)) = 2" "length (zpad 2 (dt_second d)) = 2"
    using assms by (simp_all add: valid_datetime_def zpad_length)
  have t: "take 8 (strftime_stamp d) = zpad 4 (dt_year d) @ zpad 2 (dt_month d) @ zpad 2 (dt_day d)"
    by (simp add: strftime_stamp_def l)
  have dr: "drop 9 (strftime_stamp d) = zpad 2 (dt_hour d) @ zpad 2 (dt_minute d) @ zpad 2 (dt_second d)"
    by (simp add: strftime_stamp_def l)
  have "length (strftime_stamp d) = 15" by (simp add: strftime_stamp_def l)
  moreover have "strftime_stamp d = take 8 (strftime_stamp d) @ ''_'' @ drop 9 (strftime_stamp d)"
    unfolding t dr by (simp add: strftime_stamp_def)
  moreover have "list_all is_digit (take 8 (strftime_stamp d))"
    unfolding t by (simp add: zpad_digits)
  moreover have "list_all is_digit (drop 9 (strftime_stamp d))"
    unfolding dr by (simp add: zpad_digits)
  ultimately show ?thesis by blast
qed

lemma count_ones: "sum_list (concat (map (\<lambda>e. if P e then [1::nat] else []) es)) = length (filter P es)"
  by (induction es) auto


text \<open>
  Claim C6. \<^verbatim>\<open>auto_save_macro\<close> on an empty list changes nothing and returns the empty
  string. On a non-empty list it is \<^verbatim>\<open>save_macro\<close> under the name \<^verbatim>\<open>macro_\<close>
  followed by the time stamp, with a description that holds the number of pointer presses,
  the number of key presses and the duration, which is the last offset minus the first, or
  0 for a single event. The stamp of a date with a four-digit year is eight digits, an
  underscore and six digits.
\<close>

theorem auto_save_macro_naming:
  "auto_save_macro m fs now1 now2 [] = Inr ([], fs)
   \<and> (evs \<noteq> [] \<longrightarrow>
        auto_save_macro m fs now1 now2 evs
          = save_macro m fs now2 (''macro_'' @ strftime_stamp now1) evs
              (''Auto-saved macro: ''
               @ str_nat (length (filter (\<lambda>e. case e of MouseClick t x y b p \<Rightarrow> p | _ \<Rightarrow> False) evs))
               @ '' clicks, ''
               @ str_nat (length (filter (\<lambda>e. case e of KeyPress t k \<Rightarrow> True | _ \<Rightarrow> False) evs))
               @ '' key presses, ''
               @ format_1f (if length evs \<le> 1 then 0 else timestamp (last evs) - timestamp (hd evs))
               @ ''s duration''))
   \<and> (valid_datetime now1 \<longrightarrow>
        length (strftime_stamp now1) = 15
        \<and> strftime_stamp now1 = take 8 (strftime_stamp now1) @ ''_'' @ drop 9 (strftime_stamp now1)
        \<and> list_all is_digit (take 8 (strftime_stamp now1))
        \<and> list_all is_digit (drop 9 (strftime_stamp now1)))"
proof -
  have c1: "(\<lambda>e. event_type e = ''mouse_click'' \<and> pressed e)
      = (\<lambda>e. case e of MouseClick t x y b p \<Rightarrow> p | _ \<Rightarrow> False)"
    by (rule ext) (simp split: event.splits)
  have c2: "(\<lambda>e. event_type e = ''key_press'')
      = (\<lambda>e. case e of KeyPress t k \<Rightarrow> True | _ \<Rightarrow> False)"
    by (rule ext) (simp split: event.splits)
  have n1: "sum_list [1::nat. e \<leftarrow> evs, event_type e = ''mouse_click'' \<and> pressed e]
      = length (filter (\<lambda>e. case e of MouseClick t x y b p \<Rightarrow> p | _ \<Rightarrow> False) evs)"
    using count_ones [of "\<lambda>e. event_type e = ''mouse_click'' \<and> pressed e" evs] by (simp only: c1)
  have n2: "sum_list [1::nat. e \<leftarrow> evs, event_type e = ''key_press'']
      = length (filter (\<lambda>e. case e of KeyPress t k \<Rightarrow> True | _ \<Rightarrow> False) evs)"
    using count_ones [of "\<lambda>e. event_type e = ''key_press''" evs] by (simp only: c2)
  have d: "(if length evs > 1 then timestamp (last evs) - timestamp (hd evs) else 0)
      = (if length evs \<le> 1 then 0 else timestamp (last evs) - timestamp (hd evs))"
    by auto
  have a: "auto_save_macro m fs now1 now2 [] = Inr ([], fs)"
    by (simp add: auto_save_macro_def)
  have b: "evs \<noteq> [] \<longrightarrow>
        auto_save_macro m fs now1 now2 evs
          = save_macro m fs now2 (''macro_'' @ strftime_stamp now1) evs
              (''Auto-saved macro: ''
               @ str_nat (length (filter (\<lambda>e. case e of MouseClick t x y b p \<Rightarrow> p | _ \<Rightarrow> False) evs))
               @ '' clicks, ''
               @ str_nat (length (filter (\<lambda>e. case e of KeyPress t k \<Rightarrow> True | _ \<Rightarrow> False) evs))
               @ '' key presses, ''
               @ format_1f (if length evs \<le> 1 then 0 else timestamp (last evs) - timestamp (hd evs))
               @ ''s duration'')"
    unfolding auto_save_macro_def Let_def n1 n2 d by simp
  show ?thesis using a b strftime_stamp_shape [of now1] by blast
qed

theorem auto_save_macro_naming_witness:
  "valid_datetime \<lparr>dt_year = 2025, dt_month = 7, dt_day = 2, dt_hour = 14, dt_minute = 30,
       dt_second = 45, dt_microsecond = 0\<rparr>
   \<and> strftime_stamp \<lparr>dt_year = 2025, dt_month = 7, dt_day = 2, dt_hour = 14, dt_minute = 30,
       dt_second = 45, dt_microsecond = 0\<rparr> = ''20250702_143045''
   \<and> auto_save_macro \<lparr>macros_dir = ''macros''\<rparr> \<lparr>files = Map.empty, writable = (\<lambda>p. True)\<rparr>
        \<lparr>dt_year = 2025, dt_month = 7, dt_day = 2, dt_hour = 14, dt_minute = 30,
         dt_second = 45, dt_microsecond = 0\<rparr>
        \<lparr>dt_year = 2025, dt_month = 7, dt_day = 2, dt_hour = 14, dt_minute = 30,
         dt_second = 45, dt_microsecond = 120\<rparr>
        [MouseClick 0 10 10 ''Button.left'' True, MouseClick (2 / 10) 10 10 ''Button.left'' False]
      = Inr (''macros/macro_20250702_143045.json'',
          \<lparr>files = [''macros/macro_20250702_143045.json'' \<mapsto>
              MacroFile \<lparr>md_name = ''macro_20250702_143045'',
                md_description = ''Auto-saved macro: 1 clicks, 0 key presses, 0.2s duration'',
                md_created = ''2025-07-02T14:30:45.000120'',
                md_events = [MouseClick 0 10 10 ''Button.left'' True,
                             MouseClick (2 / 10) 10 10 ''Button.left'' False]\<rparr>],
            writable = (\<lambda>p. True)\<rparr>)"
proof -
  let ?m = "\<lparr>macros_dir = ''macros''\<rparr>"
  let ?fs = "\<lparr>files = Map.empty, writable = (\<lambda>p. True)\<rparr>"
  let ?now1 = "\<lparr>dt_year = 2025, dt_month = 7, dt_day = 2, dt_hour = 14, dt_minute = 30,
       dt_second = 45, dt_microsecond = 0\<rparr>"
  let ?now2 = "\<lparr>dt_year = 2025, dt_month = 7, dt_day = 2, dt_hour = 14, dt_minute = 30,
       dt_second = 45, dt_microsecond = 120\<rparr>"
  let ?evs = "[MouseClick 0 10 10 ''Button.left'' True, MouseClick (2 / 10) 10 10 ''Button.left'' False]"
  have v: "valid_datetime ?now1" by (simp add: valid_datetime_def)
  have st: "strftime_stamp ?now1 = ''20250702_143045''"
    by (simp add: strftime_stamp_def zpad_def str_nat.simps digit_char_def)
  have r3: "replicate 3 CHR ''0'' = ''000''" by (simp add: numeral_3_eq_3)
  have iso: "isoformat ?now2 = ''2025-07-02T14:30:45.000120''"
    by (simp add: isoformat_def zpad_def str_nat.simps digit_char_def r3)
  have f: "format_1f (1 / 5) = ''0.2''"
    by (simp add: format_1f_def round_half_even_def Let_def str_nat.simps digit_char_def)
  have n: "str_nat (Suc 0) = ''1''" "str_nat 0 = ''0''"
    by (simp_all add: str_nat.simps digit_char_def)
  have ne: "?evs \<noteq> []" by simp
  from auto_save_macro_naming [of ?m ?fs ?now1 ?now2 ?evs] ne
  have "auto_save_macro ?m ?fs ?now1 ?now2 ?evs
      = save_macro ?m ?fs ?now2 (''macro_'' @ strftime_stamp ?now1) ?evs
              (''Auto-saved macro: ''
               @ str_nat (length (filter (\<lambda>e. case e of MouseClick t x y b p \<Rightarrow> p | _ \<Rightarrow> False) ?evs))
               @ '' clicks, ''
               @ str_nat (length (filter (\<lambda>e. case e of KeyPress t k \<Rightarrow> True | _ \<Rightarrow> False) ?evs))
               @ '' key presses, ''
               @ format_1f (if length ?evs \<le> 1 then 0 else timestamp (last ?evs) - timestamp (hd ?evs))
               @ ''s duration'')"
    by blast
  then show ?thesis
    using v
    by (simp add: st iso f n save_macro_result macro_path_def path_join_def startswith_def)
qed

section \<open>The save route\<close>




section \<open>The stop route\<close>

text \<open>
  Claim C10. The stop route reports \<^verbatim>\<open>auto_saved\<close> exactly when stopping succeeded and
  the buffer is not empty, whether or not the automatic save wrote anything: when the
  write raises, the exception is caught and printed, nothing is stored, and the answer
  still carries \<^verbatim>\<open>auto_saved = true\<close> and the captured events. When the write
  succeeds, the stored record holds the captured events.
\<close>

theorem stop_route_auto_saved:
  "success (fst (stop_recording_route r m fs now1 now2)) = recording r
   \<and> auto_saved (fst (stop_recording_route r m fs now1 now2)) = (recording r \<and> events r \<noteq> [])
   \<and> resp_events (fst (stop_recording_route r m fs now1 now2))
       = (if recording r then events r else [])
   \<and> (recording r \<and> events r \<noteq> []
        \<and> \<not> writable fs (macro_path m (''macro_'' @ strftime_stamp now1)) \<longrightarrow>
        stop_recording_route r m fs now1 now2
          = (\<lparr>success = True, resp_events = events r, auto_saved = True\<rparr>,
             r\<lparr>recording := False\<rparr>, fs, [AutoSaveFailed OSError]))
   \<and> (recording r \<and> events r \<noteq> []
        \<and> writable fs (macro_path m (''macro_'' @ strftime_stamp now1)) \<longrightarrow>
        fst (stop_recording_route r m fs now1 now2)
          = \<lparr>success = True, resp_events = events r, auto_saved = True\<rparr>
        \<and> snd (snd (snd (stop_recording_route r m fs now1 now2)))
          = [AutoSaved (macro_path m (''macro_'' @ strftime_stamp now1))]
        \<and> map_sum id (map_option md_events)
             (load_macro m (fst (snd (snd (stop_recording_route r m fs now1 now2))))
                (''macro_'' @ strftime_stamp now1))
          = Inr (Some (events r)))"
  by (simp add: stop_recording_route_def stop_recording_def auto_save_macro_def
        save_macro_result load_macro_def Let_def)

theorem stop_route_auto_saved_witness:
  "stop_recording_route
      \<lparr>events = [KeyPress 1 (Some ''a'')], recording = True, start_time = Some 100\<rparr>
      \<lparr>macros_dir = ''macros''\<rparr> \<lparr>files = Map.empty, writable = (\<lambda>p. False)\<rparr>
      \<lparr>dt_year = 2025, dt_month = 7, dt_day = 2, dt_hour = 14, dt_minute = 30, dt_second = 45,
       dt_microsecond = 0\<rparr>
      \<lparr>dt_year = 2025, dt_month = 7, dt_day = 2, dt_hour = 14, dt_minute = 30, dt_second = 45,
       dt_microsecond = 0\<rparr>
    = (\<lparr>success = True, resp_events = [KeyPress 1 (Some ''a'')], auto_saved = True\<rparr>,
       \<lparr>events = [KeyPress 1 (Some ''a'')], recording = False, start_time = Some 100\<rparr>,
       \<lparr>files = Map.empty, writable = (\<lambda>p. False)\<rparr>, [AutoSaveFailed OSError])
   \<and> fst (stop_recording_route
      \<lparr>events = [KeyPress 1 (Some ''a'')], recording = False, start_time = Some 100\<rparr>
      \<lparr>macros_dir = ''macros''\<rparr> \<lparr>files = Map.empty, writable = (\<lambda>p. True)\<rparr>
      \<lparr>dt_year = 2025, dt_month = 7, dt_day = 2, dt_hour = 14, dt_minute = 30, dt_second = 45,
       dt_microsecond = 0\<rparr>
      \<lparr>dt_year = 2025, dt_month = 7, dt_day = 2, dt_hour = 14, dt_minute = 30, dt_second = 45,
       dt_microsecond = 0\<rparr>)
    = \<lparr>success = False, resp_events = [], auto_saved = False\<rparr>
   \<and> snd (snd (snd (stop_recording_route
      \<lparr>events = [KeyPress 1 (Some ''a'')], recording = True, start_time = Some 100\<rparr>
      \<lparr>macros_dir = ''macros''\<rparr> \<lparr>files = Map.empty, writable = (\<lambda>p. True)\<rparr>
      \<lparr>dt_year = 2025, dt_month = 7, dt_day = 2, dt_hour = 14, dt_minute = 30, dt_second = 45,
       dt_microsecond = 0\<rparr>
      \<lparr>dt_year = 2025, dt_month = 7, dt_day = 2, dt_hour = 14, dt_minute = 30, dt_second = 45,
       dt_microsecond = 0\<rparr>)))
    = [AutoSaved ''macros/macro_20250702_143045.json'']"
proof -
  let ?on = "\<lparr>events = [KeyPress 1 (Some ''a'')], recording = True, start_time = Some 100\<rparr>"
  let ?off = "\<lparr>events = [KeyPress 1 (Some ''a'')], recording = False, start_time = Some 100\<rparr>"
  let ?m = "\<lparr>macros_dir = ''macros''\<rparr>"
  let ?fs = "\<lparr>files = Map.empty, writable = (\<lambda>p. True)\<rparr>"
  let ?ro = "\<lparr>files = Map.empty, writable = (\<lambda>p. False)\<rparr>"
  let ?now = "\<lparr>dt_year = 2025, dt_month = 7, dt_day = 2, dt_hour = 14, dt_minute = 30,
       dt_second = 45, dt_microsecond = 0\<rparr>"
  have st: "strftime_stamp ?now = ''20250702_143045''"
    by (simp add: strftime_stamp_def zpad_def str_nat.simps digit_char_def)
  have p: "macro_path ?m ''macro_20250702_143045'' = ''macros/macro_20250702_143045.json''"
    by (simp add: macro_path_def path_join_def startswith_def)
  have off: "fst (stop_recording_route ?off ?m ?fs ?now ?now)
      = \<lparr>success = False, resp_events = [], auto_saved = False\<rparr>"
    by (simp add: stop_recording_route_def stop_recording_def)
  show ?thesis
    using stop_route_auto_saved [of ?on ?m ?ro ?now ?now]
      stop_route_auto_saved [of ?on ?m ?fs ?now ?now] off
    by (simp add: st p)
qed

end
